theory Spec2Isabelle
  imports
    Main
    "HOL-Library.AList"
    "HOL-Library.Char_ord"
    "HOL-Library.List_Lexorder"
    "HOL-Library.Word"
begin

section \<open>Data model of \<^verbatim>\<open>process_lora_models.py\<close>\<close>

text \<open>
  A path and a digest are Python \<^verbatim>\<open>str\<close> values; raw tensor bytes are a list of octets.
  A tensor is what the program reads of it: its shape (\<^verbatim>\<open>param.shape\<close>) and its raw
  value bytes (\<^verbatim>\<open>tensor.numpy().tobytes()\<close>). A loaded file (\<^verbatim>\<open>state_dict\<close>) is an ordered
  mapping from tensor names to tensors, kept as an association list in iteration order.
\<close>

type_synonym path = string
type_synonym digest = string
type_synonym bytes = "8 word list"

record tensor =
  shape :: "nat list"
  data :: bytes

type_synonym state_dict = "(string \<times> tensor) list"

text \<open>The exceptions that the program's own control flow can meet.\<close>

datatype exn = LoadError | AttributeError | TypeError | JSONDecodeError

text \<open>
  The two library functions the program calls are parameters of the model:
  \<^item> \<open>ld\<close> is \<^verbatim>\<open>safetensors.torch.load_file\<close>: it returns the tensor map or raises;
  \<^item> \<open>sha\<close> is \<^verbatim>\<open>hashlib.sha256(b).hexdigest()\<close>.
\<close>

type_synonym loader = "path \<Rightarrow> exn + state_dict"
type_synonym hasher = "bytes \<Rightarrow> digest"

subsection \<open>Python dictionaries and sets\<close>

text \<open>
  A \<^verbatim>\<open>dict\<close> is an association list with distinct keys in insertion order:
  \<^const>\<open>map_of\<close> reads a key and \<^const>\<open>AList.update\<close> writes one (in place when the key is
  present, at the end otherwise). A \<^verbatim>\<open>set\<close> is a duplicate-free list; the order of the list
  is the order in which the program iterates over the set, taken here to be insertion order.
\<close>

type_synonym ('k, 'v) dict = "('k \<times> 'v) list"
type_synonym 'a pyset = "'a list"

definition set_add :: "'a \<Rightarrow> 'a pyset \<Rightarrow> 'a pyset" where
  "set_add x s = (if x \<in> set s then s else s @ [x])"

definition set_update :: "'a pyset \<Rightarrow> 'a list \<Rightarrow> 'a pyset" where
  "set_update s xs = fold set_add xs s"

definition pyset :: "'a list \<Rightarrow> 'a pyset" where
  "pyset xs = set_update [] xs"

subsection \<open>Python \<^verbatim>\<open>str\<close> of the values the program prints into digests\<close>

definition digit_char :: "nat \<Rightarrow> char" where
  "digit_char d = char_of (48 + d)"

fun str_nat :: "nat \<Rightarrow> string" where
  "str_nat n = (if n < 10 then [digit_char n] else str_nat (n div 10) @ [digit_char (n mod 10)])"

declare str_nat.simps [simp del]

fun join_sep :: "string \<Rightarrow> string list \<Rightarrow> string" where
  "join_sep sep [] = []"
| "join_sep sep [x] = x"
| "join_sep sep (x # y # ys) = x @ sep @ join_sep sep (y # ys)"

text \<open>\<^verbatim>\<open>str\<close> of a tuple of ints: \<^verbatim>\<open>()\<close>, \<^verbatim>\<open>(3,)\<close>, \<^verbatim>\<open>(3, 4)\<close>.\<close>

definition str_tuple :: "nat list \<Rightarrow> string" where
  "str_tuple t =
     (case t of
        [] \<Rightarrow> ''()''
      | [d] \<Rightarrow> ''('' @ str_nat d @ '',)''
      | _ \<Rightarrow> ''('' @ join_sep '', '' (map str_nat t) @ '')'')"

text \<open>\<^verbatim>\<open>str\<close> of a list whose items are already rendered.\<close>

definition str_list :: "string list \<Rightarrow> string" where
  "str_list items = ''['' @ join_sep '', '' items @ '']''"

text \<open>
  \<^verbatim>\<open>repr\<close> of a \<^verbatim>\<open>str\<close> (paths are taken to be ASCII): the quote is \<^verbatim>\<open>'\<close> unless the string
  holds a \<^verbatim>\<open>'\<close> and no \<^verbatim>\<open>"\<close>; the quote and the backslash are escaped, tab, newline and
  carriage return are written \<^verbatim>\<open>\t\<close>, \<^verbatim>\<open>\n\<close>, \<^verbatim>\<open>\r\<close>, other control characters as
  \<^verbatim>\<open>\xhh\<close>.
\<close>

definition hex_digit :: "nat \<Rightarrow> char" where
  "hex_digit d = (if d < 10 then char_of (48 + d) else char_of (87 + d))"

definition repr_char :: "char \<Rightarrow> char \<Rightarrow> string" where
  "repr_char q c =
     (let n = (of_char c :: nat) in
      if c = q \<or> c = CHR 0x5C then [CHR 0x5C, c]
      else if n = 9 then [CHR 0x5C, CHR ''t'']
      else if n = 10 then [CHR 0x5C, CHR ''n'']
      else if n = 13 then [CHR 0x5C, CHR ''r'']
      else if n < 32 \<or> n = 127 then [CHR 0x5C, CHR ''x'', hex_digit (n div 16), hex_digit (n mod 16)]
      else [c])"

definition repr_str :: "string \<Rightarrow> string" where
  "repr_str s =
     (let q = (if CHR 0x27 \<in> set s \<and> CHR 0x22 \<notin> set s then CHR 0x22 else CHR 0x27)
      in [q] @ concat (map (repr_char q) s) @ [q])"

text \<open>\<^verbatim>\<open>s.encode("utf-8")\<close> on an ASCII string.\<close>

definition encode_utf8 :: "string \<Rightarrow> bytes" where
  "encode_utf8 s = map of_char s"

section \<open>Signature engine\<close>

text \<open>
  \<^verbatim>\<open>compute_shape_signature\<close>: collect \<^verbatim>\<open>tuple(param.shape)\<close> of every entry in iteration
  order, print the list, hash the encoded text.
\<close>

definition compute_shape_signature :: "hasher \<Rightarrow> state_dict \<Rightarrow> digest" where
  "compute_shape_signature sha sd =
     (let shapes = map (\<lambda>(_, param). shape param) sd;
          shape_str = encode_utf8 (str_list (map str_tuple shapes))
      in sha shape_str)"

text \<open>\<^verbatim>\<open>compute_weight_hash\<close>: the digest of the tensor's raw bytes.\<close>

definition compute_weight_hash :: "hasher \<Rightarrow> tensor \<Rightarrow> digest" where
  "compute_weight_hash sha t = sha (data t)"

section \<open>Group refiner\<close>

subsection \<open>Layer-wise refinement\<close>

text \<open>
  A level (\<^verbatim>\<open>current_level\<close>, \<^verbatim>\<open>new_level\<close>) maps a subgroup key, \<^verbatim>\<open>None\<close> or a content
  hash, to the set of files of the subgroup.
\<close>

type_synonym level = "(digest option, path pyset) dict"

text \<open>
  The inner loop over \<^verbatim>\<open>state_dict.items()\<close> stops at the first tensor whose shape is not
  \<^verbatim>\<open>torch.Size([])\<close>; a file without such a tensor contributes nothing.
\<close>

definition first_nonscalar :: "state_dict \<Rightarrow> tensor option" where
  "first_nonscalar sd = map_option snd (find (\<lambda>(key, param). shape param \<noteq> []) sd)"

text \<open>\<^verbatim>\<open>layer_hash_map[file_hash].append(f)\<close>, the list created when the key is new.\<close>

definition dict_append :: "'k \<Rightarrow> 'a \<Rightarrow> ('k, 'a list) dict \<Rightarrow> ('k, 'a list) dict" where
  "dict_append k x m = AList.update k ((case map_of m k of None \<Rightarrow> [] | Some l \<Rightarrow> l) @ [x]) m"

text \<open>
  The body of the \<^verbatim>\<open>try\<close>: the files of the subgroup one after the other. A load that raises
  leaves the loop; \<^verbatim>\<open>layer_hash_map\<close> keeps what was appended before.
\<close>

fun hash_members ::
  "loader \<Rightarrow> hasher \<Rightarrow> path list \<Rightarrow> (digest, path list) dict \<Rightarrow> exn option \<times> (digest, path list) dict"
where
  "hash_members ld sha [] layer_hash_map = (None, layer_hash_map)"
| "hash_members ld sha (f # fs) layer_hash_map =
     (case ld f of
        Inl e \<Rightarrow> (Some e, layer_hash_map)
      | Inr state_dict \<Rightarrow>
          (case first_nonscalar state_dict of
             None \<Rightarrow> hash_members ld sha fs layer_hash_map
           | Some param \<Rightarrow>
               hash_members ld sha fs (dict_append (compute_weight_hash sha param) f layer_hash_map)))"

text \<open>\<^verbatim>\<open>if k not in new_level: new_level[k] = set()\<close> and \<^verbatim>\<open>new_level[k].update(files)\<close>.\<close>

definition level_put :: "'k \<Rightarrow> path list \<Rightarrow> ('k, path pyset) dict \<Rightarrow> ('k, path pyset) dict" where
  "level_put k files lvl =
     AList.update k (set_update (case map_of lvl k of None \<Rightarrow> [] | Some s \<Rightarrow> s) files) lvl"

text \<open>
  One iteration of \<^verbatim>\<open>for subgroup_key, subgroup_files in current_level.items()\<close>, on the
  pair \<^verbatim>\<open>(new_level, layer_processed)\<close>. Both branches on \<^verbatim>\<open>len(files_set) > 1\<close> do the same
  in the source.
\<close>

definition refine_subgroup ::
  "loader \<Rightarrow> hasher \<Rightarrow> digest option \<times> path pyset \<Rightarrow> level \<times> bool \<Rightarrow> level \<times> bool"
where
  "refine_subgroup ld sha entry st =
     (case entry of (subgroup_key, subgroup_files) \<Rightarrow>
      case st of (new_level, layer_processed) \<Rightarrow>
        if length subgroup_files \<le> 1
        then (level_put subgroup_key subgroup_files new_level, layer_processed)
        else
          (case hash_members ld sha subgroup_files [] of (err, layer_hash_map) \<Rightarrow>
             (fold (\<lambda>(hash_val, files_set) nl.
                      if length files_set > 1 then level_put (Some hash_val) files_set nl
                      else level_put (Some hash_val) files_set nl)
                   layer_hash_map new_level,
              (case err of None \<Rightarrow> True | Some e \<Rightarrow> layer_processed))))"

definition refine_pass :: "loader \<Rightarrow> hasher \<Rightarrow> level \<Rightarrow> level \<times> bool" where
  "refine_pass ld sha current_level = fold (refine_subgroup ld sha) current_level ([], False)"

text \<open>
  The \<^verbatim>\<open>while True\<close> loop, with fuel: \<open>None\<close> is returned only when the fuel is used up
  before a pass leaves \<^verbatim>\<open>layer_processed\<close> false.
\<close>

fun refine_loop :: "nat \<Rightarrow> loader \<Rightarrow> hasher \<Rightarrow> level \<Rightarrow> level option" where
  "refine_loop 0 ld sha current_level = None"
| "refine_loop (Suc fuel) ld sha current_level =
     (case refine_pass ld sha current_level of (new_level, layer_processed) \<Rightarrow>
        if \<not> layer_processed then Some new_level else refine_loop fuel ld sha new_level)"

text \<open>The number of passes the loop has made when it stops, counted the same way.\<close>

fun refine_passes :: "nat \<Rightarrow> loader \<Rightarrow> hasher \<Rightarrow> level \<Rightarrow> nat option" where
  "refine_passes 0 ld sha current_level = None"
| "refine_passes (Suc fuel) ld sha current_level =
     (case refine_pass ld sha current_level of (new_level, layer_processed) \<Rightarrow>
        if \<not> layer_processed then Some 1
        else map_option Suc (refine_passes fuel ld sha new_level))"

subsection \<open>Exact verification\<close>

text \<open>
  \<^verbatim>\<open>torch.equal\<close>: same size and same elements. The zip loop of the source stops at the
  first pair with different names or unequal tensors.
\<close>

definition torch_equal :: "tensor \<Rightarrow> tensor \<Rightarrow> bool" where
  "torch_equal v1 v2 = (shape v1 = shape v2 \<and> data v1 = data v2)"

definition all_match :: "state_dict \<Rightarrow> state_dict \<Rightarrow> bool" where
  "all_match ref_dict other_dict =
     list_all (\<lambda>((k1, v1), (k2, v2)). \<not> (k1 \<noteq> k2 \<or> \<not> torch_equal v1 v2)) (zip ref_dict other_dict)"

text \<open>
  A value of the duplicates table is a \<^verbatim>\<open>set\<close> when the run created it and a \<^verbatim>\<open>list\<close> when
  it came from \<^verbatim>\<open>duplicates.json\<close>; \<^verbatim>\<open>.add\<close> exists on the first only.
\<close>

datatype pycoll = PyList "path list" | PySet "path pyset"

fun members :: "pycoll \<Rightarrow> path set" where
  "members (PyList xs) = set xs"
| "members (PySet xs) = set xs"

type_synonym dup_table = "(path, pycoll) dict"
type_synonym refined_table = "(string, path list) dict"

definition record_duplicate :: "path \<Rightarrow> path \<Rightarrow> dup_table \<Rightarrow> exn + dup_table" where
  "record_duplicate reference_file other_file duplicates =
     (case map_of duplicates reference_file of
        None \<Rightarrow> Inr (AList.update reference_file (PySet (set_add other_file [])) duplicates)
      | Some (PySet s) \<Rightarrow> Inr (AList.update reference_file (PySet (set_add other_file s)) duplicates)
      | Some (PyList l) \<Rightarrow> Inl AttributeError)"

text \<open>
  The loop \<^verbatim>\<open>for other_file in list(fg)[1:]\<close>. The table is mutated in place, so what was
  recorded before an exception stays recorded: the result is the exception, if any, and
  the table.
\<close>

fun verify_others ::
  "loader \<Rightarrow> path \<Rightarrow> state_dict \<Rightarrow> path list \<Rightarrow> dup_table \<Rightarrow> exn option \<times> dup_table"
where
  "verify_others ld reference_file ref_dict [] duplicates = (None, duplicates)"
| "verify_others ld reference_file ref_dict (other_file # rest) duplicates =
     (case ld other_file of
        Inl e \<Rightarrow> (Some e, duplicates)
      | Inr other_dict \<Rightarrow>
          if length ref_dict \<noteq> length other_dict
          then verify_others ld reference_file ref_dict rest duplicates
          else if all_match ref_dict other_dict
          then (case record_duplicate reference_file other_file duplicates of
                  Inl e \<Rightarrow> (Some e, duplicates)
                | Inr duplicates' \<Rightarrow> verify_others ld reference_file ref_dict rest duplicates')
          else verify_others ld reference_file ref_dict rest duplicates)"

text \<open>One iteration of \<^verbatim>\<open>for fg in final_groups\<close>; the \<^verbatim>\<open>except\<close> only prints.\<close>

definition verify_group :: "loader \<Rightarrow> path pyset \<Rightarrow> dup_table \<Rightarrow> dup_table" where
  "verify_group ld fg duplicates =
     (if length fg \<le> 1 then duplicates
      else
        (case fg of
           [] \<Rightarrow> duplicates
         | reference_file # others \<Rightarrow>
             (case ld reference_file of
                Inl e \<Rightarrow> duplicates
              | Inr ref_dict \<Rightarrow> snd (verify_others ld reference_file ref_dict others duplicates))))"

subsection \<open>Cluster labels\<close>

definition store_cluster :: "hasher \<Rightarrow> path pyset \<Rightarrow> refined_table \<Rightarrow> refined_table" where
  "store_cluster sha fg refined_groups =
     (if length fg = 1
      then (let key_str = ''unique_'' @ hd fg in AList.update key_str fg refined_groups)
      else (let cluster_hash = sha (encode_utf8 (str_list (map repr_str (sort fg))))
            in AList.update cluster_hash fg refined_groups))"

subsection \<open>\<^verbatim>\<open>refine_group\<close>\<close>

text \<open>The subgroups the loop ends with: \<^verbatim>\<open>final_groups = list(current_level.values())\<close>.\<close>

definition final_groups :: "nat \<Rightarrow> loader \<Rightarrow> hasher \<Rightarrow> path list \<Rightarrow> path pyset list option" where
  "final_groups fuel ld sha group_files =
     map_option (map snd) (refine_loop fuel ld sha [(None, pyset group_files)])"

definition refine_group ::
  "nat \<Rightarrow> loader \<Rightarrow> hasher \<Rightarrow> path list \<Rightarrow> refined_table \<Rightarrow> dup_table
     \<Rightarrow> (refined_table \<times> dup_table) option"
where
  "refine_group fuel ld sha group_files refined_groups duplicates =
     (if length group_files \<le> 1 then Some (refined_groups, duplicates)
      else
        (case final_groups fuel ld sha group_files of
           None \<Rightarrow> None
         | Some fgs \<Rightarrow>
             Some (fold (store_cluster sha) fgs refined_groups,
                   fold (verify_group ld) fgs duplicates)))"

section \<open>Checkpoint store\<close>

text \<open>
  Each of the four files is absent, holds a table, or holds text that is not JSON (what
  \<^verbatim>\<open>json.dump\<close> leaves behind when it raises after \<^verbatim>\<open>open(filename, "w")\<close> has truncated
  the file). The metadata of a processed file (\<^verbatim>\<open>load_time_sec\<close>, \<^verbatim>\<open>size_kb\<close>) is measured
  outside the program and has the type \<open>'r\<close> here.
\<close>

datatype 'a json_file = Absent | Stored 'a | Torn

record 'r disk =
  processed_json :: "(path, 'r) dict json_file"
  groups_json :: "(digest, path list) dict json_file"
  refined_json :: "refined_table json_file"
  duplicates_json :: "(path, path list) dict json_file"

text \<open>\<^verbatim>\<open>load_json\<close>: the empty dict when the file is absent; \<^verbatim>\<open>json.load\<close> raises on bad text.\<close>

definition load_json :: "('k, 'v) dict json_file \<Rightarrow> exn + ('k, 'v) dict" where
  "load_json f = (case f of Absent \<Rightarrow> Inr [] | Stored t \<Rightarrow> Inr t | Torn \<Rightarrow> Inl JSONDecodeError)"

text \<open>
  \<^verbatim>\<open>json.dump\<close> writes a \<^verbatim>\<open>list\<close> as an array and raises \<^verbatim>\<open>TypeError\<close> on a \<^verbatim>\<open>set\<close>. The other
  three tables hold only strings, numbers and lists when they are saved, so saving them
  stores the table.
\<close>

fun json_of_coll :: "pycoll \<Rightarrow> exn + path list" where
  "json_of_coll (PyList xs) = Inr xs"
| "json_of_coll (PySet xs) = Inl TypeError"

fun json_of_duplicates :: "dup_table \<Rightarrow> exn + (path, path list) dict" where
  "json_of_duplicates [] = Inr []"
| "json_of_duplicates ((k, v) # rest) =
     (case json_of_coll v of
        Inl e \<Rightarrow> Inl e
      | Inr xs \<Rightarrow> (case json_of_duplicates rest of Inl e \<Rightarrow> Inl e | Inr js \<Rightarrow> Inr ((k, xs) # js)))"

definition save_duplicates :: "dup_table \<Rightarrow> 'r disk \<Rightarrow> exn option \<times> 'r disk" where
  "save_duplicates duplicates dk =
     (case json_of_duplicates duplicates of
        Inl e \<Rightarrow> (Some e, dk\<lparr>duplicates_json := Torn\<rparr>)
      | Inr js \<Rightarrow> (None, dk\<lparr>duplicates_json := Stored js\<rparr>))"

section \<open>Scan pipeline\<close>

definition MAX_WORKERS :: nat where
  "MAX_WORKERS = 4"

definition flush_interval :: nat where
  "flush_interval = 2"

definition endswith :: "string \<Rightarrow> string \<Rightarrow> bool" where
  "endswith s suf = (length suf \<le> length s \<and> drop (length s - length suf) s = suf)"

text \<open>\<^verbatim>\<open>os.path.join\<close> of a directory and a name, with \<^verbatim>\<open>/\<close> as the separator.\<close>

definition path_join :: "path \<Rightarrow> string \<Rightarrow> path" where
  "path_join d f =
     (if f \<noteq> [] \<and> hd f = CHR ''/'' then f
      else if d = [] \<or> last d = CHR ''/'' then d @ f
      else d @ ''/'' @ f)"

text \<open>
  The producer's loop over \<^verbatim>\<open>file_list\<close>. The state is the queue and the list of paths on
  which the loader was called, in call order. The consumers only ever add to
  \<^verbatim>\<open>processed_data\<close> the paths of files that were queued before, so the table the producer
  tests against is the one it was started with.
\<close>

type_synonym item = "path \<times> state_dict"

fun producer_loop ::
  "loader \<Rightarrow> path \<Rightarrow> string list \<Rightarrow> (path, 'r) dict \<Rightarrow> item option list \<times> path list
     \<Rightarrow> item option list \<times> path list"
where
  "producer_loop ld directory [] processed_data st = st"
| "producer_loop ld directory (file_name # rest) processed_data (file_queue, calls) =
     (let file_path = path_join directory file_name in
      if file_path \<in> fst ` set processed_data
      then producer_loop ld directory rest processed_data (file_queue, calls)
      else
        (case ld file_path of
           Inr state_dict \<Rightarrow>
             producer_loop ld directory rest processed_data
               (file_queue @ [Some (file_path, state_dict)], calls @ [file_path])
         | Inl e \<Rightarrow>
             producer_loop ld directory rest processed_data (file_queue, calls @ [file_path])))"

text \<open>
  \<^verbatim>\<open>producer_thread\<close>: \<open>listing\<close> is \<^verbatim>\<open>os.listdir(directory)\<close>. After the loop one sentinel
  \<^verbatim>\<open>None\<close> per consumer is queued.
\<close>

definition producer_thread ::
  "loader \<Rightarrow> path \<Rightarrow> string list \<Rightarrow> (path, 'r) dict \<Rightarrow> item option list \<times> path list"
where
  "producer_thread ld directory listing processed_data =
     (let file_list = filter (\<lambda>f. endswith f ''.safetensors'') listing in
      case producer_loop ld directory file_list processed_data ([], []) of
        (file_queue, calls) \<Rightarrow> (file_queue @ replicate MAX_WORKERS None, calls))"

record 'r scan_state =
  groups :: "(digest, path pyset) dict"
  processed_data :: "(path, 'r) dict"
  processed_count :: nat
  disk :: "'r disk"

text \<open>\<^verbatim>\<open>if shape_sig not in groups: groups[shape_sig] = set()\<close>, then \<^verbatim>\<open>.add(file_path)\<close>.\<close>

definition group_add :: "digest \<Rightarrow> path \<Rightarrow> (digest, path pyset) dict \<Rightarrow> (digest, path pyset) dict" where
  "group_add shape_sig file_path gs =
     AList.update shape_sig (set_add file_path (case map_of gs shape_sig of None \<Rightarrow> [] | Some s \<Rightarrow> s)) gs"

text \<open>
  What a consumer does with one item; \<open>stat\<close> gives the metadata record stored for the
  file. Every \<^const>\<open>flush_interval\<close> files both tables are written.
\<close>

definition consume_item :: "hasher \<Rightarrow> (path \<Rightarrow> 'r) \<Rightarrow> item \<Rightarrow> 'r scan_state \<Rightarrow> 'r scan_state" where
  "consume_item sha stat it st =
     (case it of (file_path, state_dict) \<Rightarrow>
        let shape_sig = compute_shape_signature sha state_dict;
            groups' = group_add shape_sig file_path (groups st);
            processed' = AList.update file_path (stat file_path) (processed_data st);
            count' = processed_count st + 1;
            disk' = (if count' mod flush_interval = 0
                     then (disk st)\<lparr>processed_json := Stored processed',
                                    groups_json := Stored groups'\<rparr>
                     else disk st)
        in \<lparr>groups = groups', processed_data = processed', processed_count = count', disk = disk'\<rparr>)"

text \<open>
  \<^verbatim>\<open>consumer_thread_shape_grouping\<close>: items are taken from the queue until a sentinel is
  met. The four consumers are run one after the other on the queue the producer has
  filled; the tables they build do not depend on which consumer takes which item.
\<close>

fun consumer_thread_shape_grouping ::
  "hasher \<Rightarrow> (path \<Rightarrow> 'r) \<Rightarrow> item option list \<Rightarrow> 'r scan_state \<Rightarrow> item option list \<times> 'r scan_state"
where
  "consumer_thread_shape_grouping sha stat [] st = ([], st)"
| "consumer_thread_shape_grouping sha stat (None # file_queue) st = (file_queue, st)"
| "consumer_thread_shape_grouping sha stat (Some it # file_queue) st =
     consumer_thread_shape_grouping sha stat file_queue (consume_item sha stat it st)"

fun run_consumers ::
  "nat \<Rightarrow> hasher \<Rightarrow> (path \<Rightarrow> 'r) \<Rightarrow> item option list \<Rightarrow> 'r scan_state \<Rightarrow> 'r scan_state"
where
  "run_consumers 0 sha stat file_queue st = st"
| "run_consumers (Suc n) sha stat file_queue st =
     (case consumer_thread_shape_grouping sha stat file_queue st of
        (file_queue', st') \<Rightarrow> run_consumers n sha stat file_queue' st')"

text \<open>The scan phase up to the join barrier; the second component is the list of loader calls.\<close>

definition scan_pipeline ::
  "loader \<Rightarrow> hasher \<Rightarrow> (path \<Rightarrow> 'r) \<Rightarrow> path \<Rightarrow> string list \<Rightarrow> 'r scan_state \<Rightarrow> 'r scan_state \<times> path list"
where
  "scan_pipeline ld sha stat directory listing st =
     (case producer_thread ld directory listing (processed_data st) of
        (file_queue, calls) \<Rightarrow> (run_consumers MAX_WORKERS sha stat file_queue st, calls))"

section \<open>Orchestrator\<close>

text \<open>
  \<^verbatim>\<open>conflict_resolution\<close>: every group with more than one file is refined and
  \<^verbatim>\<open>refined_groups.json\<close> is rewritten after it. \<open>None\<close> means that a refinement did not
  finish within the fuel.
\<close>

fun conflict_resolution ::
  "nat \<Rightarrow> loader \<Rightarrow> hasher \<Rightarrow> (digest, path pyset) dict \<Rightarrow> refined_table \<times> dup_table \<times> 'r disk
     \<Rightarrow> (refined_table \<times> dup_table \<times> 'r disk) option"
where
  "conflict_resolution fuel ld sha [] st = Some st"
| "conflict_resolution fuel ld sha ((shape_sig, file_paths) # rest) (refined_groups, duplicates, dk) =
     (if length file_paths > 1
      then
        (case refine_group fuel ld sha file_paths refined_groups duplicates of
           None \<Rightarrow> None
         | Some (refined_groups', duplicates') \<Rightarrow>
             conflict_resolution fuel ld sha rest
               (refined_groups', duplicates', dk\<lparr>refined_json := Stored refined_groups'\<rparr>))
      else conflict_resolution fuel ld sha rest (refined_groups, duplicates, dk))"

text \<open>
  \<^verbatim>\<open>run_adaptive_lora_analysis\<close>. The result is \<open>None\<close> when a refinement does not finish,
  and otherwise the exception that ended the run, if any, with the files as the run left
  them. Group values loaded from \<^verbatim>\<open>groups.json\<close> are turned into sets; the values loaded
  from \<^verbatim>\<open>duplicates.json\<close> stay lists.
\<close>

definition run_adaptive_lora_analysis ::
  "nat \<Rightarrow> loader \<Rightarrow> hasher \<Rightarrow> (path \<Rightarrow> 'r) \<Rightarrow> path \<Rightarrow> string list \<Rightarrow> 'r disk
     \<Rightarrow> (exn option \<times> 'r disk) option"
where
  "run_adaptive_lora_analysis fuel ld sha stat lora_directory listing dk =
     (case load_json (processed_json dk) of
        Inl e \<Rightarrow> Some (Some e, dk)
      | Inr processed0 \<Rightarrow>
     (case load_json (groups_json dk) of
        Inl e \<Rightarrow> Some (Some e, dk)
      | Inr raw_groups \<Rightarrow>
     (case load_json (refined_json dk) of
        Inl e \<Rightarrow> Some (Some e, dk)
      | Inr refined0 \<Rightarrow>
     (case load_json (duplicates_json dk) of
        Inl e \<Rightarrow> Some (Some e, dk)
      | Inr raw_duplicates \<Rightarrow>
          let groups0 = map (\<lambda>(k, v). (k, pyset v)) raw_groups;
              duplicates0 = map (\<lambda>(k, v). (k, PyList v)) raw_duplicates;
              st0 = \<lparr>groups = groups0, processed_data = processed0,
                     processed_count = length processed0, disk = dk\<rparr>;
              st1 = fst (scan_pipeline ld sha stat lora_directory listing st0);
              dk1 = (disk st1)\<lparr>processed_json := Stored (processed_data st1),
                               groups_json := Stored (groups st1)\<rparr>
          in
            (case conflict_resolution fuel ld sha (groups st1) (refined0, duplicates0, dk1) of
               None \<Rightarrow> None
             | Some (refined_groups, duplicates, dk2) \<Rightarrow>
                 Some (save_duplicates duplicates (dk2\<lparr>refined_json := Stored refined_groups\<rparr>)))))))"


section \<open>Observations on the tables\<close>


text \<open>The files of \<^verbatim>\<open>duplicates[reference_file]\<close>; none when the key is absent.\<close>

definition dup_members :: "dup_table \<Rightarrow> path \<Rightarrow> path set" where
  "dup_members duplicates reference_file =
     (case map_of duplicates reference_file of None \<Rightarrow> {} | Some c \<Rightarrow> members c)"

text \<open>
  What the verification loop tests on a pair: both files load, the tensor maps have the
  same number of keys, and the zip loop finds no difference.
\<close>

definition files_equal :: "loader \<Rightarrow> path \<Rightarrow> path \<Rightarrow> bool" where
  "files_equal ld a b =
     (case ld a of
        Inl e \<Rightarrow> False
      | Inr da \<Rightarrow> (case ld b of Inl e \<Rightarrow> False | Inr db \<Rightarrow> length da = length db \<and> all_match da db))"

section \<open>Concrete inputs\<close>

text \<open>
  Three tensors, a stand-in for the hash (the bytes in hexadecimal), and two loaders.
  \<open>demo_loader\<close> knows the files \<^verbatim>\<open>a\<close>, \<^verbatim>\<open>b\<close>, \<^verbatim>\<open>e\<close> (the same content), \<^verbatim>\<open>z\<close> (same shape,
  other values), \<^verbatim>\<open>s\<close>, \<^verbatim>\<open>t\<close> (one scalar tensor each); every other path fails to load.
  \<open>dir_loader\<close> is a directory \<^verbatim>\<open>d\<close> with \<^verbatim>\<open>a\<close>, \<^verbatim>\<open>b\<close> and \<^verbatim>\<open>z\<close>.
\<close>

definition weights_12 :: tensor where
  "weights_12 = \<lparr>shape = [2], data = [1, 2]\<rparr>"

definition weights_34 :: tensor where
  "weights_34 = \<lparr>shape = [2], data = [3, 4]\<rparr>"

definition scalar_7 :: tensor where
  "scalar_7 = \<lparr>shape = [], data = [7]\<rparr>"

definition demo_sha :: hasher where
  "demo_sha bs = concat (map (\<lambda>w. [hex_digit (unat w div 16), hex_digit (unat w mod 16)]) bs)"

definition demo_loader :: loader where
  "demo_loader p =
     (if p = ''a'' \<or> p = ''b'' \<or> p = ''e'' then Inr [(''w'', weights_12)]
      else if p = ''z'' then Inr [(''w'', weights_34)]
      else if p = ''s'' \<or> p = ''t'' then Inr [(''alpha'', scalar_7)]
      else Inl LoadError)"

definition dir_loader :: loader where
  "dir_loader p =
     (if p = ''d/a.safetensors'' \<or> p = ''d/b.safetensors'' then Inr [(''w'', weights_12)]
      else if p = ''d/z.safetensors'' then Inr [(''w'', weights_34)]
      else Inl LoadError)"

definition empty_disk :: "unit disk" where
  "empty_disk = \<lparr>processed_json = Absent, groups_json = Absent,
                  refined_json = Absent, duplicates_json = Absent\<rparr>"

definition fresh_scan :: "unit scan_state" where
  "fresh_scan = \<lparr>groups = [], processed_data = [], processed_count = 0, disk = empty_disk\<rparr>"







section \<open>Facts about sets and dictionaries\<close>

lemma set_set_add: "set (set_add x s) = insert x (set s)"
  by (auto simp: set_add_def)

lemma distinct_set_add: "distinct s \<Longrightarrow> distinct (set_add x s)"
  by (simp add: set_add_def)

lemma set_set_update: "set (set_update s xs) = set s \<union> set xs"
  unfolding set_update_def by (induction xs arbitrary: s) (auto simp: set_set_add)

lemma distinct_set_update: "distinct s \<Longrightarrow> distinct (set_update s xs)"
  unfolding set_update_def by (induction xs arbitrary: s) (auto simp: distinct_set_add)

lemma in_update_cases:
  "e \<in> set (AList.update k v al) \<Longrightarrow> e = (k, v) \<or> e \<in> set al"
  by (induction al) (auto split: if_splits)

lemma fold_update_other:
  "k \<notin> key ` set xs \<Longrightarrow> map_of (fold (\<lambda>x. AList.update (key x) x) xs r) k = map_of r k"
  by (induction xs arbitrary: r) (auto simp: update_conv')

lemma fold_update_map_of:
  "inj_on key (set xs) \<Longrightarrow> x \<in> set xs \<Longrightarrow>
     map_of (fold (\<lambda>x. AList.update (key x) x) xs r) (key x) = Some x"
proof (induction xs arbitrary: r)
  case Nil
  then show ?case by simp
next
  case (Cons y ys)
  have inj: "inj_on key (set ys)"
    using Cons.prems(1) by (simp add: inj_on_def)
  show ?case
  proof (cases "x \<in> set ys")
    case True
    from Cons.IH [OF inj True] show ?thesis by simp
  next
    case False
    with Cons.prems have xy: "x = y" by simp
    have "key x \<notin> key ` set ys"
      using Cons.prems(1) False xy by (auto simp: inj_on_def)
    then show ?thesis
      by (simp add: xy [symmetric] fold_update_other update_conv')
  qed
qed

text \<open>The definitions that a run of the refiner on a concrete group unfolds.\<close>

lemmas refine_defs = refine_group_def final_groups_def refine_pass_def refine_subgroup_def
  first_nonscalar_def dict_append_def compute_weight_hash_def level_put_def
  set_update_def set_add_def pyset_def verify_group_def store_cluster_def
  all_match_def torch_equal_def record_duplicate_def

section \<open>Signature engine: the signature reads shapes only\<close>

text \<open>
  Claim C8. \<^verbatim>\<open>compute_shape_signature\<close> is a function of the sequence of tensor shapes in
  iteration order: two tensor maps with the same shape sequence get the same digest,
  whatever the tensors are called and whatever they hold.
\<close>

theorem compute_shape_signature_shapes_only:
  "map (\<lambda>(name, param). shape param) sd1 = map (\<lambda>(name, param). shape param) sd2
   \<Longrightarrow> compute_shape_signature sha sd1 = compute_shape_signature sha sd2"
  by (simp add: compute_shape_signature_def)

text \<open>Two maps with other names and other values, and the digest they share.\<close>

theorem compute_shape_signature_shapes_only_witness:
  "map (\<lambda>(name, param). shape param) [(''w'', weights_12)]
     = map (\<lambda>(name, param). shape param) [(''lora_up'', weights_34)]
   \<and> compute_shape_signature demo_sha [(''w'', weights_12)]
     = compute_shape_signature demo_sha [(''lora_up'', weights_34)]"
proof -
  have h: "map (\<lambda>(name, param). shape param) [(''w'', weights_12)]
             = map (\<lambda>(name, param). shape param) [(''lora_up'', weights_34)]"
    by (simp add: weights_12_def weights_34_def)
  from h compute_shape_signature_shapes_only [OF h, of demo_sha] show ?thesis
    by simp
qed

section \<open>Scan pipeline\<close>

subsection \<open>What the producer calls and queues\<close>

lemma producer_loop_calls:
  "snd (producer_loop ld d files pd (q, c)) =
     c @ filter (\<lambda>p. p \<notin> fst ` set pd) (map (path_join d) files)"
  by (induction files arbitrary: q c) (auto simp: Let_def split: sum.splits)

lemma producer_loop_queue:
  "fst (producer_loop ld d files pd (q, c)) =
     q @ map Some (List.map_filter (\<lambda>p. case ld p of Inr sd \<Rightarrow> Some (p, sd) | Inl e \<Rightarrow> None)
            (filter (\<lambda>p. p \<notin> fst ` set pd) (map (path_join d) files)))"
  by (induction files arbitrary: q c) (auto simp: Let_def split: sum.splits)

lemma producer_thread_calls:
  "snd (producer_thread ld d listing pd) =
     filter (\<lambda>p. p \<notin> fst ` set pd)
       (map (path_join d) (filter (\<lambda>f. endswith f ''.safetensors'') listing))"
  using producer_loop_calls [of ld d "filter (\<lambda>f. endswith f ''.safetensors'') listing" pd "[]" "[]"]
  by (simp add: producer_thread_def case_prod_beta Let_def)

lemma producer_thread_queue:
  "fst (producer_thread ld d listing pd) =
     map Some (List.map_filter (\<lambda>p. case ld p of Inr sd \<Rightarrow> Some (p, sd) | Inl e \<Rightarrow> None)
       (filter (\<lambda>p. p \<notin> fst ` set pd)
          (map (path_join d) (filter (\<lambda>f. endswith f ''.safetensors'') listing))))
     @ replicate MAX_WORKERS None"
  using producer_loop_queue [of ld d "filter (\<lambda>f. endswith f ''.safetensors'') listing" pd "[]" "[]"]
  by (simp add: producer_thread_def case_prod_beta Let_def)

lemma queued_items_iff:
  "(p, sd) \<in> set (List.map_filter (\<lambda>p. case ld p of Inr sd \<Rightarrow> Some (p, sd) | Inl e \<Rightarrow> None) ps)
     \<longleftrightarrow> p \<in> set ps \<and> ld p = Inr sd"
  by (induction ps) (auto split: sum.splits)


text \<open>
  Claim C6. A path that is a key of the processed table when the producer starts is never
  handed to the loader by the producer, and no item for it is queued.
\<close>

theorem producer_never_loads_processed:
  "p \<in> fst ` set processed0 \<Longrightarrow>
     p \<notin> set (snd (producer_thread ld directory listing processed0))
     \<and> Some (p, sd) \<notin> set (fst (producer_thread ld directory listing processed0))"
  by (force simp: producer_thread_calls producer_thread_queue queued_items_iff)

text \<open>
  A resumed scan of \<^verbatim>\<open>d\<close>: \<^verbatim>\<open>a\<close> is in the table, so the loader is called on \<^verbatim>\<open>z\<close> only.
\<close>

theorem producer_never_loads_processed_witness:
  "''d/a.safetensors'' \<in> fst ` set [(''d/a.safetensors'', ())]
   \<and> snd (producer_thread dir_loader ''d'' [''a.safetensors'', ''z.safetensors'']
            [(''d/a.safetensors'', ())]) = [''d/z.safetensors'']
   \<and> ''d/a.safetensors'' \<notin> set (snd (producer_thread dir_loader ''d''
            [''a.safetensors'', ''z.safetensors''] [(''d/a.safetensors'', ())]))
   \<and> Some (''d/a.safetensors'', [(''w'', weights_12)]) \<notin> set (fst (producer_thread dir_loader ''d''
            [''a.safetensors'', ''z.safetensors''] [(''d/a.safetensors'', ())]))"
proof -
  have h: "''d/a.safetensors'' \<in> fst ` set [(''d/a.safetensors'', ())]"
    by simp
  have calls: "snd (producer_thread dir_loader ''d'' [''a.safetensors'', ''z.safetensors'']
            [(''d/a.safetensors'', ())]) = [''d/z.safetensors'']"
    by (simp add: producer_thread_def endswith_def path_join_def dir_loader_def Let_def)
  from h calls
    producer_never_loads_processed [OF h, of dir_loader "''d''"
      "[''a.safetensors'', ''z.safetensors'']" "[(''w'', weights_12)]"]
  show ?thesis by blast
qed

subsection \<open>What the consumers make of the queue\<close>











subsection \<open>A file that fails to load during the scan\<close>


section \<open>Group refiner: the refinement loop\<close>

subsection \<open>Two files with the same first tensor\<close>

text \<open>
  Every pass hashes the first non-scalar tensor of each file again. For the group of
  \<^verbatim>\<open>a\<close> and \<^verbatim>\<open>b\<close>, each holding the one tensor \<open>weights_12\<close>, a pass maps the level to the
  same level and leaves \<^verbatim>\<open>layer_processed\<close> true.
\<close>

lemma twins_first_pass:
  "refine_pass demo_loader sha [(None, [''a'', ''b''])] = ([(Some (sha [1, 2]), [''a'', ''b''])], True)"
  by (simp add: refine_defs demo_loader_def weights_12_def)

lemma twins_later_pass:
  "refine_pass demo_loader sha [(Some h, [''a'', ''b''])] = ([(Some (sha [1, 2]), [''a'', ''b''])], True)"
  by (simp add: refine_defs demo_loader_def weights_12_def)

lemma twins_loop_never_stops:
  "refine_loop fuel demo_loader sha [(Some h, [''a'', ''b''])] = None"
  by (induction fuel arbitrary: h) (simp_all add: twins_later_pass)

lemma twins_passes_never_counted:
  "refine_passes fuel demo_loader sha [(Some h, [''a'', ''b''])] = None"
  by (induction fuel arbitrary: h) (simp_all add: twins_later_pass)

lemma demo_sha_differs:
  "demo_sha [1, 2] \<noteq> demo_sha [3, 4]" "demo_sha [3, 4] \<noteq> demo_sha [1, 2]"
  by code_simp+

text \<open>
  The same holds of every group of two or more distinct files that all load and whose
  first non-scalar tensors have one and the same hash, true duplicates among them: the
  pass returns the one subgroup again, and the loop has no way out.
\<close>

lemma set_update_distinct:
  "distinct (s @ xs) \<Longrightarrow> set_update s xs = s @ xs"
  unfolding set_update_def
  by (induction xs arbitrary: s) (auto simp: set_add_def)

lemma hash_members_same_hash:
  assumes "\<forall>f \<in> set files. \<exists>sd t. ld f = Inr sd \<and> first_nonscalar sd = Some t
             \<and> compute_weight_hash sha t = h"
  shows "hash_members ld sha files [(h, pre)] = (None, [(h, pre @ files)])"
  using assms
proof (induction files arbitrary: pre)
  case Nil
  then show ?case by simp
next
  case (Cons f fs)
  from Cons.prems obtain sd t where f: "ld f = Inr sd" "first_nonscalar sd = Some t"
    "compute_weight_hash sha t = h"
    by auto
  have "hash_members ld sha (f # fs) [(h, pre)] = hash_members ld sha fs [(h, pre @ [f])]"
    by (simp add: f dict_append_def)
  also have "\<dots> = (None, [(h, (pre @ [f]) @ fs)])"
    using Cons.prems by (intro Cons.IH) simp
  finally show ?case by simp
qed

lemma hash_members_same_hash_start:
  assumes "\<forall>f \<in> set files. \<exists>sd t. ld f = Inr sd \<and> first_nonscalar sd = Some t
             \<and> compute_weight_hash sha t = h"
    and "files \<noteq> []"
  shows "hash_members ld sha files [] = (None, [(h, files)])"
proof -
  from assms(2) obtain f fs where files: "files = f # fs"
    by (cases files) auto
  from assms(1) obtain sd t where f: "ld f = Inr sd" "first_nonscalar sd = Some t"
    "compute_weight_hash sha t = h"
    by (auto simp: files)
  have "hash_members ld sha files [] = hash_members ld sha fs [(h, [f])]"
    by (simp add: files f dict_append_def)
  also have "\<dots> = (None, [(h, [f] @ fs)])"
    using assms(1) by (intro hash_members_same_hash) (simp add: files)
  finally show ?thesis by (simp add: files)
qed

lemma refine_pass_same_hash:
  assumes "\<forall>f \<in> set files. \<exists>sd t. ld f = Inr sd \<and> first_nonscalar sd = Some t
             \<and> compute_weight_hash sha t = h"
    and "1 < length files" and "distinct files"
  shows "refine_pass ld sha [(k, files)] = ([(Some h, files)], True)"
proof -
  have "files \<noteq> []"
    using assms(2) by auto
  from hash_members_same_hash_start [OF assms(1) this]
  show ?thesis
    using assms(2,3)
    by (simp add: refine_pass_def refine_subgroup_def level_put_def set_update_distinct)
qed

lemma refine_loop_same_hash:
  assumes "\<forall>f \<in> set files. \<exists>sd t. ld f = Inr sd \<and> first_nonscalar sd = Some t
             \<and> compute_weight_hash sha t = h"
    and "1 < length files" and "distinct files"
  shows "refine_loop fuel ld sha [(k, files)] = None"
proof (induction fuel arbitrary: k)
  case 0
  then show ?case by simp
next
  case (Suc fuel)
  then show ?case
    by (simp add: refine_pass_same_hash [OF assms])
qed

lemma refine_group_same_hash:
  assumes "\<forall>f \<in> set group_files. \<exists>sd t. ld f = Inr sd \<and> first_nonscalar sd = Some t
             \<and> compute_weight_hash sha t = h"
    and "1 < length group_files" and "distinct group_files"
  shows "refine_group fuel ld sha group_files refined_groups duplicates = None"
proof -
  have "pyset group_files = group_files"
    using assms(3) by (simp add: pyset_def set_update_distinct)
  then show ?thesis
    using assms(2) refine_loop_same_hash [OF assms, of fuel None]
    by (simp add: refine_group_def final_groups_def)
qed

text \<open>
  Claim C1 says that the loop of \<^verbatim>\<open>refine_group\<close> always ends, after at most as many passes
  as the largest tensor count in the group. On the group of \<^verbatim>\<open>a\<close> and \<^verbatim>\<open>b\<close> (one tensor
  each, the same bytes) no amount of fuel lets \<^verbatim>\<open>refine_group\<close> return, whatever the hash
  function is; and on the group of \<^verbatim>\<open>a\<close> and \<^verbatim>\<open>z\<close> (one tensor each, other bytes) the loop
  ends after two passes.
\<close>

theorem refine_group_diverges_on_equal_first_tensor:
  "refine_group fuel demo_loader sha [''a'', ''b''] refined_groups duplicates = None
   \<and> refine_passes fuel demo_loader sha [(None, pyset [''a'', ''b''])] = None
   \<and> refine_passes (Suc (Suc fuel)) demo_loader demo_sha [(None, pyset [''a'', ''z''])] = Some 2"
proof -
  have "refine_loop fuel demo_loader sha [(None, [''a'', ''b''])] = None"
    by (cases fuel) (simp_all add: twins_first_pass twins_loop_never_stops)
  then have 1: "refine_group fuel demo_loader sha [''a'', ''b''] refined_groups duplicates = None"
    by (simp add: refine_group_def final_groups_def pyset_def set_update_def set_add_def)
  have "refine_passes fuel demo_loader sha [(None, [''a'', ''b''])] = None"
    by (cases fuel) (simp_all add: twins_first_pass twins_passes_never_counted)
  then have 2: "refine_passes fuel demo_loader sha [(None, pyset [''a'', ''b''])] = None"
    by (simp add: pyset_def set_update_def set_add_def)
  have 3: "refine_passes (Suc (Suc fuel)) demo_loader demo_sha [(None, pyset [''a'', ''z''])] = Some 2"
    by (simp add: refine_defs demo_loader_def weights_12_def weights_34_def demo_sha_differs)
  from 1 2 3 show ?thesis by blast
qed

subsection \<open>Files that fall out of the level\<close>

text \<open>
  Claim C2 says that the refined clusters of a group partition it, a file that fails to
  load or has no non-scalar tensor staying in its subgroup. In the code such a file is
  never appended to \<^verbatim>\<open>layer_hash_map\<close>, and \<^verbatim>\<open>new_level\<close> is filled from that map only:
  \<^item> for \<^verbatim>\<open>a\<close> and \<^verbatim>\<open>c\<close>, where \<^verbatim>\<open>c\<close> does not load, the only cluster is that of \<^verbatim>\<open>a\<close>;
  \<^item> when \<^verbatim>\<open>c\<close> is iterated first, no cluster is left at all;
  \<^item> for \<^verbatim>\<open>s\<close> and \<^verbatim>\<open>t\<close>, which load and hold one scalar tensor each, no cluster is left.
\<close>

theorem refine_group_drops_files:
  "refine_group (Suc fuel) demo_loader sha [''a'', ''c''] [] [] = Some ([(''unique_a'', [''a''])], [])
   \<and> refine_group (Suc fuel) demo_loader sha [''c'', ''a''] [] [] = Some ([], [])
   \<and> refine_group (Suc (Suc fuel)) demo_loader sha [''s'', ''t''] [] [] = Some ([], [])"
  by (simp add: refine_defs demo_loader_def weights_12_def scalar_7_def)

section \<open>Group refiner: exact verification\<close>

subsection \<open>What verification adds to the duplicates table\<close>

lemma record_duplicate_members:
  "record_duplicate r x d = Inr d' \<Longrightarrow>
     dup_members d' k = (if k = r then insert x (dup_members d k) else dup_members d k)"
  by (auto simp: record_duplicate_def dup_members_def update_conv' set_set_add
      split: option.splits pycoll.splits)

lemma record_duplicate_set:
  "\<forall>l. map_of d r \<noteq> Some (PyList l) \<Longrightarrow>
     \<exists>d'. record_duplicate r x d = Inr d' \<and> (\<forall>l. map_of d' r \<noteq> Some (PyList l))"
  by (auto simp: record_duplicate_def update_conv' split: option.splits pycoll.splits)

lemma verify_others_subset:
  "ld r = Inr rd \<Longrightarrow> verify_others ld r rd others d = (err, d') \<Longrightarrow>
     dup_members d' k \<subseteq>
       dup_members d k \<union> (if k = r then {x \<in> set others. files_equal ld r x} else {})"
proof (induction others arbitrary: d)
  case Nil
  then show ?case by simp
next
  case (Cons x xs)
  show ?case
  proof (cases "ld x")
    case (Inl e)
    with Cons.prems show ?thesis by simp
  next
    case (Inr od)
    show ?thesis
    proof (cases "length rd = length od \<and> all_match rd od")
      case False
      with Cons.prems Inr have "verify_others ld r rd xs d = (err, d')"
        by (auto split: if_splits)
      from Cons.IH [OF Cons.prems(1) this] show ?thesis by auto
    next
      case True
      then have eq: "files_equal ld r x"
        using Cons.prems(1) Inr by (simp add: files_equal_def)
      show ?thesis
      proof (cases "record_duplicate r x d")
        case (Inl e)
        with Cons.prems Inr True show ?thesis by simp
      next
        case rec: (Inr d1)
        with Cons.prems Inr True have "verify_others ld r rd xs d1 = (err, d')"
          by simp
        from Cons.IH [OF Cons.prems(1) this] record_duplicate_members [OF rec, of k] eq
        show ?thesis by (auto split: if_splits)
      qed
    qed
  qed
qed

lemma verify_group_subset:
  "dup_members (verify_group ld fg d) k \<subseteq>
     dup_members d k \<union> {x. fg \<noteq> [] \<and> k = hd fg \<and> x \<in> set (tl fg) \<and> files_equal ld k x}"
proof (cases fg)
  case Nil
  then show ?thesis by (simp add: verify_group_def)
next
  case (Cons r others)
  show ?thesis
  proof (cases "ld r")
    case (Inl e)
    then show ?thesis by (simp add: verify_group_def Cons)
  next
    case (Inr rd)
    obtain err d' where v: "verify_others ld r rd others d = (err, d')"
      by (cases "verify_others ld r rd others d")
    from verify_others_subset [OF Inr v, of k] show ?thesis
      by (auto simp: verify_group_def Cons Inr v split: if_splits)
  qed
qed

lemma fold_verify_group_subset:
  "dup_members (fold (verify_group ld) fgs d) k \<subseteq>
     dup_members d k
       \<union> {x. \<exists>fg \<in> set fgs. fg \<noteq> [] \<and> k = hd fg \<and> x \<in> set (tl fg) \<and> files_equal ld k x}"
proof (induction fgs arbitrary: d)
  case Nil
  then show ?case by simp
next
  case (Cons fg fgs)
  from Cons.IH [of "verify_group ld fg d"] verify_group_subset [of ld fg d k]
  show ?case by (simp add: subset_iff) blast
qed

lemma all_match_list_all2:
  "length xs = length ys \<Longrightarrow>
     all_match xs ys \<longleftrightarrow>
       map fst xs = map fst ys \<and> list_all2 torch_equal (map snd xs) (map snd ys)"
  unfolding all_match_def
  by (induction xs ys rule: list_induct2) auto

lemma refine_group_duplicates:
  assumes "refine_group fuel ld sha group_files refined_groups duplicates = Some (refined', duplicates')"
    and "x \<in> dup_members duplicates' k - dup_members duplicates k"
  shows "\<exists>fgs fg. final_groups fuel ld sha group_files = Some fgs \<and> fg \<in> set fgs \<and> fg \<noteq> []
           \<and> k = hd fg \<and> x \<in> set (tl fg) \<and> files_equal ld k x"
proof (cases "length group_files \<le> 1")
  case True
  with assms show ?thesis by (simp add: refine_group_def)
next
  case False
  with assms(1) obtain fgs where fgs: "final_groups fuel ld sha group_files = Some fgs"
    and d': "duplicates' = fold (verify_group ld) fgs duplicates"
    by (auto simp: refine_group_def split: option.splits)
  from assms(2) fold_verify_group_subset [of ld fgs duplicates k]
  show ?thesis unfolding d' fgs by blast
qed

text \<open>
  A run that ends with a subgroup of two: \<^verbatim>\<open>a\<close> and \<^verbatim>\<open>b\<close> are hashed, the load of \<^verbatim>\<open>c\<close>
  raises, the loop stops, and the verification records \<^verbatim>\<open>b\<close> under \<^verbatim>\<open>a\<close>.
\<close>

lemma refine_group_a_b_c:
  "refine_group 1 demo_loader demo_sha [''a'', ''b'', ''c''] [] [] =
     Some ([(demo_sha (encode_utf8 (str_list [repr_str ''a'', repr_str ''b''])), [''a'', ''b''])],
           [(''a'', PySet [''b''])])"
  by code_simp

subsection \<open>Recorded pairs were compared and found equal\<close>

text \<open>
  Claim C4. If \<^verbatim>\<open>refine_group\<close> puts \<open>B\<close> into the duplicates of the reference \<open>A\<close>, then
  both files loaded, their tensor maps have the same number of entries, the same names in
  iteration order, and \<^verbatim>\<open>torch.equal\<close> holds of every pair of tensors.
\<close>

theorem recorded_duplicate_was_verified:
  assumes "refine_group fuel ld sha group_files refined_groups duplicates = Some (refined', duplicates')"
    and "B \<in> dup_members duplicates' A - dup_members duplicates A"
  shows "\<exists>da db. ld A = Inr da \<and> ld B = Inr db \<and> length da = length db
           \<and> map fst da = map fst db \<and> list_all2 torch_equal (map snd da) (map snd db)"
proof -
  from refine_group_duplicates [OF assms] have "files_equal ld A B"
    by blast
  then show ?thesis
    by (auto simp: files_equal_def all_match_list_all2 split: sum.splits)
qed

theorem recorded_duplicate_was_verified_witness:
  "refine_group 1 demo_loader demo_sha [''a'', ''b'', ''c''] [] [] =
     Some ([(demo_sha (encode_utf8 (str_list [repr_str ''a'', repr_str ''b''])), [''a'', ''b''])],
           [(''a'', PySet [''b''])])
   \<and> ''b'' \<in> dup_members [(''a'', PySet [''b''])] ''a'' - dup_members [] ''a''
   \<and> (\<exists>da db. demo_loader ''a'' = Inr da \<and> demo_loader ''b'' = Inr db \<and> length da = length db
           \<and> map fst da = map fst db \<and> list_all2 torch_equal (map snd da) (map snd db))"
proof -
  have h: "''b'' \<in> dup_members [(''a'', PySet [''b''])] ''a'' - dup_members [] ''a''"
    by (simp add: dup_members_def)
  from recorded_duplicate_was_verified [OF refine_group_a_b_c h] refine_group_a_b_c h
  show ?thesis by blast
qed

subsection \<open>A reference is not its own duplicate\<close>

lemma level_put_distinct:
  assumes "\<forall>s \<in> snd ` set lvl. distinct s"
  shows "\<forall>s \<in> snd ` set (level_put k files lvl). distinct s"
proof
  fix s assume "s \<in> snd ` set (level_put k files lvl)"
  then obtain k' where "(k', s) \<in> set (level_put k files lvl)"
    by auto
  then consider "s = set_update (case map_of lvl k of None \<Rightarrow> [] | Some s \<Rightarrow> s) files"
    | "(k', s) \<in> set lvl"
    unfolding level_put_def by (auto dest: in_update_cases)
  then show "distinct s"
  proof cases
    case 1
    have "distinct (case map_of lvl k of None \<Rightarrow> [] | Some s \<Rightarrow> s)"
      using assms by (auto split: option.splits dest!: map_of_SomeD)
    then show ?thesis
      unfolding 1 by (rule distinct_set_update)
  next
    case 2
    then show ?thesis using assms by force
  qed
qed

lemma fold_level_put_distinct:
  "\<forall>s \<in> snd ` set lvl. distinct s \<Longrightarrow>
     \<forall>s \<in> snd ` set (fold (\<lambda>(hash_val, files_set) nl.
                      if length files_set > 1 then level_put (Some hash_val) files_set nl
                      else level_put (Some hash_val) files_set nl) lhm lvl). distinct s"
proof (induction lhm arbitrary: lvl)
  case Nil
  then show ?case by simp
next
  case (Cons e lhm)
  obtain h fs where e: "e = (h, fs)" by (cases e)
  have "\<forall>s \<in> snd ` set (level_put (Some h) fs lvl). distinct s"
    using Cons.prems by (rule level_put_distinct)
  from Cons.IH [OF this] show ?case by (simp add: e)
qed

lemma refine_subgroup_distinct:
  assumes "\<forall>s \<in> snd ` set (fst st). distinct s"
  shows "\<forall>s \<in> snd ` set (fst (refine_subgroup ld sha entry st)). distinct s"
proof -
  obtain k files where entry: "entry = (k, files)" by (cases entry)
  obtain nl lp where st: "st = (nl, lp)" by (cases st)
  obtain err lhm where hm: "hash_members ld sha files [] = (err, lhm)"
    by (cases "hash_members ld sha files []")
  have nl: "\<forall>s \<in> snd ` set nl. distinct s"
    using assms by (simp add: st)
  show ?thesis
  proof (cases "length files \<le> 1")
    case True
    then show ?thesis
      using level_put_distinct [OF nl, of k files] by (simp add: refine_subgroup_def entry st)
  next
    case False
    then show ?thesis
      using fold_level_put_distinct [OF nl, of lhm] by (simp add: refine_subgroup_def entry st hm)
  qed
qed

lemma fold_refine_subgroup_distinct:
  "\<forall>s \<in> snd ` set (fst st). distinct s \<Longrightarrow>
     \<forall>s \<in> snd ` set (fst (fold (refine_subgroup ld sha) lvl st)). distinct s"
proof (induction lvl arbitrary: st)
  case Nil
  then show ?case by simp
next
  case (Cons e lvl)
  from Cons.IH [OF refine_subgroup_distinct [OF Cons.prems]] show ?case by simp
qed

lemma refine_pass_distinct:
  "\<forall>s \<in> snd ` set (fst (refine_pass ld sha lvl)). distinct s"
  unfolding refine_pass_def by (rule fold_refine_subgroup_distinct) simp

lemma refine_loop_distinct:
  "refine_loop fuel ld sha lvl = Some lvl' \<Longrightarrow> \<forall>s \<in> snd ` set lvl'. distinct s"
proof (induction fuel arbitrary: lvl)
  case 0
  then show ?case by simp
next
  case (Suc fuel)
  obtain nl lp where p: "refine_pass ld sha lvl = (nl, lp)"
    by (cases "refine_pass ld sha lvl")
  show ?case
  proof (cases lp)
    case True
    with Suc.prems p have "refine_loop fuel ld sha nl = Some lvl'" by simp
    then show ?thesis by (rule Suc.IH)
  next
    case False
    with Suc.prems p have "lvl' = nl" by simp
    then show ?thesis using refine_pass_distinct [of ld sha lvl] by (simp add: p)
  qed
qed

lemma final_groups_distinct:
  "final_groups fuel ld sha group_files = Some fgs \<Longrightarrow> fg \<in> set fgs \<Longrightarrow> distinct fg"
  unfolding final_groups_def using refine_loop_distinct by fastforce

text \<open>
  Claim C10. \<^verbatim>\<open>refine_group\<close> never adds a reference file to its own duplicate set: a file
  \<open>r\<close> is in \<^verbatim>\<open>duplicates[r]\<close> after the call only if it was there before.
\<close>

theorem reference_not_added_to_own_duplicates:
  assumes "refine_group fuel ld sha group_files refined_groups duplicates = Some (refined', duplicates')"
  shows "r \<notin> dup_members duplicates' r - dup_members duplicates r"
proof
  assume "r \<in> dup_members duplicates' r - dup_members duplicates r"
  from refine_group_duplicates [OF assms this]
  obtain fgs fg where "final_groups fuel ld sha group_files = Some fgs" "fg \<in> set fgs"
    and fg: "fg \<noteq> []" "r = hd fg" "r \<in> set (tl fg)"
    by blast
  then have "distinct fg" by (simp add: final_groups_distinct)
  with fg show False by (cases fg) auto
qed

theorem reference_not_added_to_own_duplicates_witness:
  "refine_group 1 demo_loader demo_sha [''a'', ''b'', ''c''] [] [] =
     Some ([(demo_sha (encode_utf8 (str_list [repr_str ''a'', repr_str ''b''])), [''a'', ''b''])],
           [(''a'', PySet [''b''])])
   \<and> dup_members [(''a'', PySet [''b''])] ''a'' = {''b''}
   \<and> ''a'' \<notin> dup_members [(''a'', PySet [''b''])] ''a'' - dup_members [] ''a''"
proof -
  have m: "dup_members [(''a'', PySet [''b''])] ''a'' = {''b''}"
    by (simp add: dup_members_def)
  from reference_not_added_to_own_duplicates [OF refine_group_a_b_c, of "''a''"] refine_group_a_b_c m
  show ?thesis by blast
qed

subsection \<open>Errors and mismatches during verification\<close>

lemma verify_others_exact:
  assumes "\<forall>l. map_of d r \<noteq> Some (PyList l)"
  shows "dup_members (snd (verify_others ld r rd others d)) r =
           dup_members d r \<union>
             set (filter (\<lambda>x. case ld x of Inl e \<Rightarrow> False
                                | Inr od \<Rightarrow> length rd = length od \<and> all_match rd od)
                    (takeWhile (\<lambda>x. \<not> isl (ld x)) others))"
  using assms
proof (induction others arbitrary: d)
  case Nil
  then show ?case by simp
next
  case (Cons x xs)
  show ?case
  proof (cases "ld x")
    case (Inl e)
    then show ?thesis by simp
  next
    case (Inr od)
    show ?thesis
    proof (cases "length rd = length od \<and> all_match rd od")
      case False
      then have step: "verify_others ld r rd (x # xs) d = verify_others ld r rd xs d"
        using Inr by auto
      show ?thesis
        unfolding step using Cons.IH [OF Cons.prems] Inr False
        by (cases "length rd = length od") simp_all
    next
      case True
      from record_duplicate_set [OF Cons.prems, of x] obtain d1
        where rec: "record_duplicate r x d = Inr d1" and d1: "\<forall>l. map_of d1 r \<noteq> Some (PyList l)"
        by blast
      have step: "verify_others ld r rd (x # xs) d = verify_others ld r rd xs d1"
        using Inr True rec by simp
      have "dup_members d1 r = insert x (dup_members d r)"
        using record_duplicate_members [OF rec, of r] by simp
      then show ?thesis
        unfolding step using Cons.IH [OF d1] Inr True by simp
    qed
  qed
qed

lemma verify_others_other_key:
  "k \<noteq> r \<Longrightarrow> dup_members (snd (verify_others ld r rd others d)) k = dup_members d k"
proof (induction others arbitrary: d)
  case Nil
  then show ?case by simp
next
  case (Cons x xs)
  show ?case
  proof (cases "ld x")
    case (Inl e)
    then show ?thesis by simp
  next
    case ldx: (Inr od)
    show ?thesis
    proof (cases "record_duplicate r x d")
      case (Inl e)
      then show ?thesis using ldx Cons.IH [OF Cons.prems, of d] by simp
    next
      case (Inr d1)
      from record_duplicate_members [OF Inr, of k] Cons.prems
      have "dup_members d1 k = dup_members d k" by simp
      then show ?thesis
        using ldx Inr Cons.IH [OF Cons.prems, of d] Cons.IH [OF Cons.prems, of d1] by simp
    qed
  qed
qed

text \<open>
  Claim C5 says that a mismatch or an error met while one member is compared with the
  reference touches that pair only, every other member still being compared. The
  \<^verbatim>\<open>try\<close> of the source encloses the whole loop over the members, so an exception ends the
  loop: \<^verbatim>\<open>e\<close> has the content of the reference \<^verbatim>\<open>a\<close> and is recorded when the subgroup is
  \<^verbatim>\<open>a\<close>, \<^verbatim>\<open>e\<close>, but not when \<^verbatim>\<open>x\<close>, which does not load, is iterated before it.
\<close>

theorem verify_group_error_hides_later_member:
  "files_equal demo_loader ''a'' ''e''
   \<and> demo_loader ''x'' = Inl LoadError
   \<and> ''e'' \<in> dup_members (verify_group demo_loader [''a'', ''e''] []) ''a''
   \<and> ''e'' \<notin> dup_members (verify_group demo_loader [''a'', ''x'', ''e''] []) ''a''"
  by (simp add: files_equal_def demo_loader_def weights_12_def dup_members_def
      verify_group_def all_match_def torch_equal_def record_duplicate_def set_add_def)

text \<open>
  Claim C5 as amended. When the reference loads and its entry in the table, if there is
  one, is a set: the members up to the first one that fails to load are each compared
  with the reference, and each is recorded exactly when it matches, whatever the others
  did; the members after the first load failure are not compared; the entries of other
  references are left as they were; and the verification of the subgroup returns the
  table in every case, so that the run goes on.
\<close>

theorem verify_group_stops_at_first_error:
  assumes "ld reference_file = Inr ref_dict"
    and "others \<noteq> []"
    and "\<forall>l. map_of duplicates reference_file \<noteq> Some (PyList l)"
  shows "dup_members (verify_group ld (reference_file # others) duplicates) reference_file =
           dup_members duplicates reference_file \<union>
             set (filter (\<lambda>x. case ld x of Inl e \<Rightarrow> False
                                | Inr other_dict \<Rightarrow>
                                    length ref_dict = length other_dict \<and> all_match ref_dict other_dict)
                    (takeWhile (\<lambda>x. \<not> isl (ld x)) others))
       \<and> (k \<noteq> reference_file \<longrightarrow>
            dup_members (verify_group ld (reference_file # others) duplicates) k = dup_members duplicates k)"
proof -
  have "verify_group ld (reference_file # others) duplicates =
          snd (verify_others ld reference_file ref_dict others duplicates)"
    using assms(1,2) by (cases others) (simp_all add: verify_group_def)
  then show ?thesis
    using verify_others_exact [OF assms(3), of ld ref_dict others]
      verify_others_other_key [of k reference_file ld ref_dict others duplicates]
    by simp
qed

text \<open>
  The subgroup \<^verbatim>\<open>a\<close>, \<^verbatim>\<open>z\<close>, \<^verbatim>\<open>b\<close>, \<^verbatim>\<open>x\<close>, \<^verbatim>\<open>e\<close>: \<^verbatim>\<open>z\<close> differs from \<^verbatim>\<open>a\<close>, \<^verbatim>\<open>b\<close> and \<^verbatim>\<open>e\<close> equal it, \<^verbatim>\<open>x\<close>
  does not load. Only \<^verbatim>\<open>b\<close> is recorded.
\<close>

theorem verify_group_stops_at_first_error_witness:
  "demo_loader ''a'' = Inr [(''w'', weights_12)]
   \<and> [''z'', ''b'', ''x'', ''e''] \<noteq> []
   \<and> (\<forall>l. map_of ([] :: dup_table) ''a'' \<noteq> Some (PyList l))
   \<and> dup_members (verify_group demo_loader [''a'', ''z'', ''b'', ''x'', ''e''] []) ''a'' = {''b''}
   \<and> dup_members (verify_group demo_loader [''a'', ''z'', ''b'', ''x'', ''e''] []) ''z'' = {}"
proof -
  have h1: "demo_loader ''a'' = Inr [(''w'', weights_12)]"
    by (simp add: demo_loader_def)
  have h2: "[''z'', ''b'', ''x'', ''e''] \<noteq> []"
    by simp
  have h3: "\<forall>l. map_of ([] :: dup_table) ''a'' \<noteq> Some (PyList l)"
    by simp
  from verify_group_stops_at_first_error [where ld = demo_loader and reference_file = "''a''"
      and ref_dict = "[(''w'', weights_12)]" and others = "[''z'', ''b'', ''x'', ''e'']"
      and duplicates = "[]" and k = "''z''", OF h1 h2 h3] h1 h2 h3
  show ?thesis
    by (simp add: demo_loader_def weights_12_def weights_34_def dup_members_def
        all_match_def torch_equal_def)
qed

section \<open>Group refiner: cluster labels\<close>

lemma store_cluster_update:
  "store_cluster sha =
     (\<lambda>fg. AList.update (if length fg = 1 then ''unique_'' @ hd fg
                          else sha (encode_utf8 (str_list (map repr_str (sort fg))))) fg)"
  by (rule ext)+ (simp add: store_cluster_def Let_def)

text \<open>
  Claim C7 says that a singleton cluster is stored under \<^verbatim>\<open>unique:\<close> followed by its path.
  The prefix the source writes is \<^verbatim>\<open>unique_\<close>: for the group of \<^verbatim>\<open>a\<close> and \<^verbatim>\<open>z\<close>, whose first
  tensors differ, the table holds the keys \<^verbatim>\<open>unique_a\<close> and \<^verbatim>\<open>unique_z\<close> and no key
  \<^verbatim>\<open>unique:a\<close>.
\<close>

theorem singleton_label_is_not_unique_colon:
  "refine_group 2 demo_loader demo_sha [''a'', ''z''] [] [] =
     Some ([(''unique_a'', [''a'']), (''unique_z'', [''z''])], [])
   \<and> map_of [(''unique_a'', [''a'']), (''unique_z'', [''z''])] ''unique:a'' = None
   \<and> map_of [(''unique_a'', [''a'']), (''unique_z'', [''z''])] ''unique_a'' = Some [''a'']"
  by code_simp

text \<open>
  Claim C7 as amended. When \<^verbatim>\<open>refine_group\<close> returns, a final subgroup of one file is
  stored under \<^verbatim>\<open>unique_\<close> followed by the path of the file, and a final subgroup of several
  files under the digest of the printed sorted list of their paths, provided that no two
  final subgroups get the same key (no digest collision).
\<close>

theorem cluster_labels:
  fixes sha :: hasher
  defines "label \<equiv> \<lambda>fg. if length fg = 1 then ''unique_'' @ hd fg
                          else sha (encode_utf8 (str_list (map repr_str (sort fg))))"
  assumes "1 < length group_files"
      and "refine_group fuel ld sha group_files refined_groups duplicates = Some (refined', duplicates')"
      and "final_groups fuel ld sha group_files = Some fgs"
      and "inj_on label (set fgs)"
      and "fg \<in> set fgs"
  shows "(length fg = 1 \<longrightarrow> map_of refined' (''unique_'' @ hd fg) = Some fg)
       \<and> (1 < length fg \<longrightarrow>
            map_of refined' (sha (encode_utf8 (str_list (map repr_str (sort fg))))) = Some fg)"
proof -
  have "refined' = fold (\<lambda>fg. AList.update (label fg) fg) fgs refined_groups"
    using assms(2,3,4) by (auto simp: refine_group_def store_cluster_update label_def)
  then have "map_of refined' (label fg) = Some fg"
    using fold_update_map_of [OF assms(5,6)] by simp
  then show ?thesis
    by (auto simp: label_def)
qed

text \<open>
  The group \<^verbatim>\<open>a\<close>, \<^verbatim>\<open>b\<close>, \<^verbatim>\<open>z\<close>, \<^verbatim>\<open>c\<close> ends with the subgroups of \<^verbatim>\<open>a\<close>, \<^verbatim>\<open>b\<close> and of \<^verbatim>\<open>z\<close>.
\<close>

lemma refine_group_a_b_z_c:
  "refine_group 1 demo_loader demo_sha [''a'', ''b'', ''z'', ''c''] [] [] =
     Some ([(''5b2761272c202762275d'', [''a'', ''b'']), (''unique_z'', [''z''])],
           [(''a'', PySet [''b''])])"
  by code_simp

lemma final_groups_a_b_z_c:
  "final_groups 1 demo_loader demo_sha [''a'', ''b'', ''z'', ''c''] = Some [ [''a'', ''b''], [''z''] ]"
  by code_simp

lemma digest_a_b:
  "demo_sha (encode_utf8 (str_list (map repr_str (sort [''a'', ''b''])))) = ''5b2761272c202762275d''"
  by code_simp

theorem cluster_labels_witness:
  "1 < length [''a'', ''b'', ''z'', ''c'']
   \<and> final_groups 1 demo_loader demo_sha [''a'', ''b'', ''z'', ''c''] = Some [ [''a'', ''b''], [''z''] ]
   \<and> inj_on (\<lambda>fg. if length fg = 1 then ''unique_'' @ hd fg
                   else demo_sha (encode_utf8 (str_list (map repr_str (sort fg)))))
        (set [ [''a'', ''b''], [''z''] ])
   \<and> map_of [(''5b2761272c202762275d'', [''a'', ''b'']), (''unique_z'', [''z''])] ''unique_z''
       = Some [''z'']
   \<and> map_of [(''5b2761272c202762275d'', [''a'', ''b'']), (''unique_z'', [''z''])]
        (demo_sha (encode_utf8 (str_list (map repr_str (sort [''a'', ''b''])))))
       = Some [''a'', ''b'']"
proof -
  have h1: "1 < length [''a'', ''b'', ''z'', ''c'']"
    by simp
  have h4: "inj_on (\<lambda>fg. if length fg = 1 then ''unique_'' @ hd fg
                   else demo_sha (encode_utf8 (str_list (map repr_str (sort fg)))))
        (set [ [''a'', ''b''], [''z''] ])"
    by (simp add: digest_a_b del: sort_key_simps)
  have z: "[''z''] \<in> set [ [''a'', ''b''], [''z''] ]" and ab: "[''a'', ''b''] \<in> set [ [''a'', ''b''], [''z''] ]"
    by simp_all
  from cluster_labels [OF h1 refine_group_a_b_z_c final_groups_a_b_z_c h4 z]
    cluster_labels [OF h1 refine_group_a_b_z_c final_groups_a_b_z_c h4 ab]
    h1 final_groups_a_b_z_c h4
  show ?thesis by simp
qed

section \<open>Orchestrator: the final save of the duplicates table\<close>

text \<open>
  An entry that the verification creates is a \<^verbatim>\<open>set\<close>, and \<^verbatim>\<open>save_json\<close> is given the table
  as it is: one such entry makes \<^verbatim>\<open>json.dump\<close> raise.
\<close>

lemma json_of_duplicates_set:
  "(k, PySet xs) \<in> set duplicates \<Longrightarrow> json_of_duplicates duplicates = Inl TypeError"
proof (induction duplicates)
  case Nil
  then show ?case by simp
next
  case (Cons e duplicates)
  obtain k' v where e: "e = (k', v)" by (cases e)
  show ?case
  proof (cases v)
    case (PyList ys)
    with Cons e show ?thesis by auto
  next
    case (PySet ys)
    with e show ?thesis by simp
  qed
qed

lemma save_duplicates_set:
  "(k, PySet xs) \<in> set duplicates \<Longrightarrow>
     save_duplicates duplicates dk = (Some TypeError, dk\<lparr>duplicates_json := Torn\<rparr>)"
  by (simp add: save_duplicates_def json_of_duplicates_set)

text \<open>
  Claim C3 says that the run ends by persisting all four tables, the duplicates as arrays
  of paths. The groups are converted with \<^verbatim>\<open>list(v)\<close> before they are saved; the duplicates
  are not. A resumed run: the checkpoint holds the group of \<^verbatim>\<open>a\<close>, \<^verbatim>\<open>b\<close> and \<^verbatim>\<open>c\<close>, all three
  processed, and \<^verbatim>\<open>c\<close> cannot be read any more. Refinement ends with the subgroup of \<^verbatim>\<open>a\<close>
  and \<^verbatim>\<open>b\<close>, verification records \<^verbatim>\<open>b\<close> under \<^verbatim>\<open>a\<close>, and the final \<^verbatim>\<open>save_json\<close> raises
  \<^verbatim>\<open>TypeError\<close>, leaving \<^verbatim>\<open>duplicates.json\<close> without a table.
\<close>

theorem run_cannot_save_found_duplicates:
  "run_adaptive_lora_analysis (Suc fuel) dir_loader sha stat ''d''
     [''a.safetensors'', ''b.safetensors'', ''c.safetensors'']
     \<lparr>processed_json = Stored [(''d/a.safetensors'', ra), (''d/b.safetensors'', rb),
                                (''d/c.safetensors'', rc)],
      groups_json = Stored [(g, [''d/a.safetensors'', ''d/b.safetensors'', ''d/c.safetensors''])],
      refined_json = Absent,
      duplicates_json = Absent\<rparr>
   = Some (Some TypeError,
     \<lparr>processed_json = Stored [(''d/a.safetensors'', ra), (''d/b.safetensors'', rb),
                                (''d/c.safetensors'', rc)],
      groups_json = Stored [(g, [''d/a.safetensors'', ''d/b.safetensors'', ''d/c.safetensors''])],
      refined_json = Stored
        [(sha (encode_utf8 (str_list [repr_str ''d/a.safetensors'', repr_str ''d/b.safetensors''])),
          [''d/a.safetensors'', ''d/b.safetensors''])],
      duplicates_json = Torn\<rparr>)"
proof -
  have scan: "scan_pipeline dir_loader sha stat ''d''
      [''a.safetensors'', ''b.safetensors'', ''c.safetensors'']
      \<lparr>groups = [(g, [''d/a.safetensors'', ''d/b.safetensors'', ''d/c.safetensors''])],
       processed_data = [(''d/a.safetensors'', ra), (''d/b.safetensors'', rb), (''d/c.safetensors'', rc)],
       processed_count = n, disk = dk\<rparr>
    = (\<lparr>groups = [(g, [''d/a.safetensors'', ''d/b.safetensors'', ''d/c.safetensors''])],
       processed_data = [(''d/a.safetensors'', ra), (''d/b.safetensors'', rb), (''d/c.safetensors'', rc)],
       processed_count = n, disk = dk\<rparr>, [])" for dk :: "'a disk" and n
    by (simp add: scan_pipeline_def producer_thread_def endswith_def path_join_def Let_def
        MAX_WORKERS_def eval_nat_numeral)
  have refine: "refine_group (Suc fuel) dir_loader sha
      [''d/a.safetensors'', ''d/b.safetensors'', ''d/c.safetensors''] [] []
    = Some ([(sha (encode_utf8 (str_list [repr_str ''d/a.safetensors'', repr_str ''d/b.safetensors''])),
              [''d/a.safetensors'', ''d/b.safetensors''])],
            [(''d/a.safetensors'', PySet [''d/b.safetensors''])])"
    by (simp add: refine_defs dir_loader_def weights_12_def)
  show ?thesis
    by (simp add: run_adaptive_lora_analysis_def load_json_def scan refine pyset_def
        set_update_def set_add_def save_duplicates_def Let_def)
qed

section \<open>Orchestrator: a failed load and the next run\<close>

subsection \<open>What a run leaves in the checkpoint\<close>


lemma consume_item_disk:
  "refined_json (disk (consume_item sha stat it st)) = refined_json (disk st)
   \<and> duplicates_json (disk (consume_item sha stat it st)) = duplicates_json (disk st)"
  by (cases it) (simp add: consume_item_def Let_def)



subsection \<open>The next run after a failed load\<close>







end
